theory Spec2Isabelle
  imports Complex_Main
begin

section \<open>Python strings\<close>

text \<open>
  A Python \<open>str\<close> is a sequence of Unicode code points; \<open>len\<close> and slicing count code
  points. A string is therefore a list of code points, and an ASCII literal of the source
  is written \<open>u ''...''\<close>.
\<close>

type_synonym ustr = "nat list"

definition u :: "string \<Rightarrow> ustr" where
  "u s = map of_char s"

text \<open>
  \<open>str.strip()\<close>, \<open>str.isspace()\<close> and the class \<open>\s\<close> of a \<open>str\<close> pattern share one table of
  white space: the ASCII controls 9 to 13 and 28 to 31, the space, and the Unicode
  separators.
\<close>

definition py_isspace :: "nat \<Rightarrow> bool" where
  "py_isspace c =
     ((9 \<le> c \<and> c \<le> 13) \<or> (28 \<le> c \<and> c \<le> 32) \<or> c = 133 \<or> c = 160 \<or> c = 5760
      \<or> (8192 \<le> c \<and> c \<le> 8202) \<or> c = 8232 \<or> c = 8233 \<or> c = 8239 \<or> c = 8287
      \<or> c = 12288)"

definition strip :: "ustr \<Rightarrow> ustr" where
  "strip s = rev (dropWhile py_isspace (rev (dropWhile py_isspace s)))"

section \<open>What the interpreter supplies\<close>

text \<open>
  Letter case and the rounding of doubles. On the ASCII characters, and on the integers
  a double holds exactly, the interpreter's rules are written out below. Beyond those
  they are the Unicode tables of the interpreter and the IEEE 754 rounding of its
  doubles, which are not code of this repository: they are parameters of the model, and
  every theorem holds for all of them. \<open>lower_table U s i\<close> is what \<open>s.lower()\<close> makes of the
  non-ASCII character at position \<open>i\<close> of \<open>s\<close> (one character or several, and for the
  capital sigma a matter of its place in \<open>s\<close>); \<open>match_table U p c\<close> says whether, under
  \<open>re.IGNORECASE\<close>, the non-ASCII pattern character \<open>p\<close> matches the character \<open>c\<close>;
  \<open>round_double U x\<close> is the double nearest to \<open>x\<close>.
\<close>

record interpreter =
  lower_table :: "ustr \<Rightarrow> nat \<Rightarrow> ustr"
  match_table :: "nat \<Rightarrow> nat \<Rightarrow> bool"
  round_double :: "real \<Rightarrow> real"

text \<open>
  The difference of two doubles is the double nearest to their exact difference. An
  integer below \<open>2 ^ 53\<close> in magnitude is a double, hence its own nearest.
\<close>

definition float_sub :: "interpreter \<Rightarrow> real \<Rightarrow> real \<Rightarrow> real" where
  "float_sub U x y =
     (if x - y \<in> \<int> \<and> \<bar>x - y\<bar> < 2 ^ 53 then x - y else round_double U (x - y))"

section \<open>Letter case\<close>

definition ascii_lower :: "nat \<Rightarrow> nat" where
  "ascii_lower c = (if 65 \<le> c \<and> c \<le> 90 then c + 32 else c)"

text \<open>\<open>s.lower()\<close>: an ASCII character is folded, another one is looked up.\<close>

fun lower_from :: "interpreter \<Rightarrow> ustr \<Rightarrow> nat \<Rightarrow> ustr \<Rightarrow> ustr" where
  "lower_from U s i [] = []"
| "lower_from U s i (c # cs) =
     (if c < 128 then [ascii_lower c] else lower_table U s i) @ lower_from U s (Suc i) cs"

definition py_lower :: "interpreter \<Rightarrow> ustr \<Rightarrow> ustr" where
  "py_lower U s = lower_from U s 0 s"

text \<open>
  One literal pattern character against one character of the text under
  \<open>re.IGNORECASE\<close>. An ASCII letter matches its two cases; \<open>i\<close> and \<open>I\<close> also match U+0130
  and U+0131, \<open>k\<close> and \<open>K\<close> the Kelvin sign U+212A, \<open>s\<close> and \<open>S\<close> the long s U+017F. Any other
  ASCII character, \<open>@\<close> among them, matches itself only.
\<close>

definition ascii_ci :: "nat \<Rightarrow> nat \<Rightarrow> bool" where
  "ascii_ci p c =
     (ascii_lower c = ascii_lower p
      \<or> (ascii_lower p = 105 \<and> (c = 304 \<or> c = 305))
      \<or> (ascii_lower p = 107 \<and> c = 8490)
      \<or> (ascii_lower p = 115 \<and> c = 383))"

definition sre_ci :: "interpreter \<Rightarrow> nat \<Rightarrow> nat \<Rightarrow> bool" where
  "sre_ci U p c = (if p < 128 then ascii_ci p c else match_table U p c)"

text \<open>The literal pattern \<open>p\<close> matches at the head of \<open>s\<close>.\<close>

fun matches_at :: "interpreter \<Rightarrow> ustr \<Rightarrow> ustr \<Rightarrow> bool" where
  "matches_at U [] s = True"
| "matches_at U (p # ps) [] = False"
| "matches_at U (p # ps) (c # cs) = (sre_ci U p c \<and> matches_at U ps cs)"

section \<open>String operations\<close>

text \<open>\<open>s.startswith(p)\<close>, \<open>p in s\<close> and \<open>sep.join(xs)\<close>.\<close>

fun startswith :: "ustr \<Rightarrow> ustr \<Rightarrow> bool" where
  "startswith s [] = True"
| "startswith [] (p # ps) = False"
| "startswith (c # cs) (p # ps) = (c = p \<and> startswith cs ps)"

fun py_in :: "ustr \<Rightarrow> ustr \<Rightarrow> bool" where
  "py_in p [] = (p = [])"
| "py_in p (c # cs) = (startswith (c # cs) p \<or> py_in p cs)"

fun py_join :: "ustr \<Rightarrow> ustr list \<Rightarrow> ustr" where
  "py_join sep [] = []"
| "py_join sep [x] = x"
| "py_join sep (x # y # ys) = x @ sep @ py_join sep (y # ys)"

text \<open>
  \<open>s.rsplit(" ", 1)[0]\<close>: the part of \<open>s\<close> before its last space (U+0020), or \<open>s\<close> itself
  when it holds no space.
\<close>

definition rsplit1_head :: "ustr \<Rightarrow> ustr" where
  "rsplit1_head s = (if 32 \<in> set s then rev (tl (dropWhile (\<lambda>c. c \<noteq> 32) (rev s))) else s)"

text \<open>\<open>re.sub(r"\s+", " ", s)\<close>: every maximal run of white space becomes one space.\<close>

function collapse_ws :: "ustr \<Rightarrow> ustr" where
  "collapse_ws [] = []"
| "collapse_ws (c # cs) =
     (if py_isspace c then 32 # collapse_ws (dropWhile py_isspace cs) else c # collapse_ws cs)"
  by pat_completeness auto
termination
  by (relation "measure length") (auto simp: length_dropWhile_le less_Suc_eq_le)

text \<open>
  \<open>re.sub(pattern, "", s, flags=re.IGNORECASE)\<close>, where the pattern is the character \<open>@\<close>
  followed by \<open>re.escape(bot_username)\<close>: the escaped handle is a sequence of literal
  characters. The scan goes from left to right; where the pattern matches, the match is
  dropped and the scan goes on behind it.
\<close>

function re_sub_mention :: "interpreter \<Rightarrow> ustr \<Rightarrow> ustr \<Rightarrow> ustr" where
  "re_sub_mention U h [] = []"
| "re_sub_mention U h (c # cs) =
     (if matches_at U (64 # h) (c # cs)
      then re_sub_mention U h (drop (length h) cs)
      else c # re_sub_mention U h cs)"
  by pat_completeness auto
termination
  by (relation "measure (\<lambda>(U, h, s). length s)") auto

section \<open>Cooldown tracker\<close>

text \<open>
  \<open>LAST_ROAST_AT\<close> is a dictionary from chat id to the loop's monotonic time. The clock is
  read once per call and is an input of the model; a time is the real number a double
  stands for, and the difference of two times is taken as the interpreter takes it.
  \<^verbatim>\<open>
  now = asyncio.get_event_loop().time()
  last = LAST_ROAST_AT.get(chat_id, 0.0)
  if now - last < 120:
      return False
  LAST_ROAST_AT[chat_id] = now
  return True
  \<close>
\<close>

type_synonym cooldown = "int \<rightharpoonup> real"

definition roast_allowed :: "interpreter \<Rightarrow> real \<Rightarrow> int \<Rightarrow> cooldown \<Rightarrow> bool \<times> cooldown" where
  "roast_allowed U now chat_id LAST_ROAST_AT =
     (let last = (case LAST_ROAST_AT chat_id of None \<Rightarrow> 0 | Some t \<Rightarrow> t)
      in if float_sub U now last < 120 then (False, LAST_ROAST_AT)
         else (True, LAST_ROAST_AT(chat_id \<mapsto> now)))"

section \<open>Completion client\<close>

text \<open>
  \<open>hf_generate\<close> posts the prompt up to three times. What one attempt meets inside the
  \<open>try\<close> block is an input of the model: a response, with its status, the value of
  \<open>data["choices"][0]["message"]["content"]\<close> decoded from its JSON body (\<open>None\<close> when the
  decoding or the indexing raises) and its body as text; or \<open>asyncio.TimeoutError\<close>; or any
  other exception. The function's effects are a trace of the posts made and of the sleeps
  taken, in seconds.
\<close>

datatype outcome = Response nat "ustr option" ustr | TimeoutError | OtherException

datatype event = Post | Sleep real

definition froze_msg :: ustr where
  "froze_msg = u ''Sorry love'' @ [8212] @ u ''my brain froze for a second. Try again?''"

definition oops_msg :: ustr where
  "oops_msg = u ''Oops love'' @ [8230] @ u '' something broke on my side. Try again in a moment?''"

definition busy_msg :: ustr where
  "busy_msg = u ''I'' @ [8217] @ u ''m a bit busy right now, my dear'' @ [8212] @ u ''try again shortly.''"

text \<open>An integer in an f-string is written in decimal.\<close>

fun decimal :: "nat \<Rightarrow> ustr" where
  "decimal n = (if n < 10 then [48 + n] else decimal (n div 10) @ [48 + n mod 10])"

declare decimal.simps [simp del]

definition llm_error :: "nat \<Rightarrow> ustr \<Rightarrow> ustr" where
  "llm_error status txt = u ''(LLM error '' @ decimal status @ u '') '' @ take 3500 txt @ [8230]"

text \<open>
  The loop \<open>for attempt in range(3)\<close>, over the attempts still to make. An exception on an
  attempt other than the last falls out of the \<open>except\<close> clause into the next iteration.
\<close>

fun hf_attempts :: "(nat \<Rightarrow> outcome) \<Rightarrow> nat list \<Rightarrow> event list \<Rightarrow> ustr \<times> event list" where
  "hf_attempts post [] tr = (busy_msg, tr)"
| "hf_attempts post (attempt # rest) tr =
     (case post attempt of
        Response status content txt \<Rightarrow>
          if status = 200 then
            (case content of
               Some c \<Rightarrow> (strip c, tr @ [Post])
             | None \<Rightarrow>
                 if attempt = 2 then (oops_msg, tr @ [Post])
                 else hf_attempts post rest (tr @ [Post]))
          else if status = 429 \<or> status = 503 then
            hf_attempts post rest (tr @ [Post, Sleep (1.2 + real attempt * 0.8)])
          else (llm_error status txt, tr @ [Post])
      | TimeoutError \<Rightarrow>
          if attempt = 2 then (froze_msg, tr @ [Post])
          else hf_attempts post rest (tr @ [Post])
      | OtherException \<Rightarrow>
          if attempt = 2 then (oops_msg, tr @ [Post])
          else hf_attempts post rest (tr @ [Post]))"

definition hf_generate :: "(nat \<Rightarrow> outcome) \<Rightarrow> ustr \<times> event list" where
  "hf_generate post = hf_attempts post [0, 1, 2] []"

text \<open>
  Reading a trace: whether attempt \<open>i\<close> (0-based) was made, and what followed its post.
\<close>

definition attempt_made :: "nat \<Rightarrow> event list \<Rightarrow> bool" where
  "attempt_made i tr = (i < length (filter (\<lambda>e. e = Post) tr))"

fun after_post :: "nat \<Rightarrow> event list \<Rightarrow> event list" where
  "after_post i [] = []"
| "after_post i (Sleep d # tr) = after_post i tr"
| "after_post 0 (Post # tr) = tr"
| "after_post (Suc i) (Post # tr) = after_post i tr"

definition busy_status :: "outcome \<Rightarrow> bool" where
  "busy_status r = (case r of Response status content txt \<Rightarrow> status = 429 \<or> status = 503 | _ \<Rightarrow> False)"

text \<open>
  Three readings of one attempt, used to describe a run: whether the loop goes on after
  it, the sleep it takes, and the string it returns when the loop stops there.
\<close>

definition continues :: "(nat \<Rightarrow> outcome) \<Rightarrow> nat \<Rightarrow> bool" where
  "continues post a =
     (case post a of
        Response status content body \<Rightarrow>
          (status = 200 \<and> content = None \<and> a \<noteq> 2) \<or> (status \<noteq> 200 \<and> (status = 429 \<or> status = 503))
      | TimeoutError \<Rightarrow> a \<noteq> 2
      | OtherException \<Rightarrow> a \<noteq> 2)"

definition pause :: "(nat \<Rightarrow> outcome) \<Rightarrow> nat \<Rightarrow> event list" where
  "pause post a = (if busy_status (post a) then [Sleep (1.2 + real a * 0.8)] else [])"

definition final :: "(nat \<Rightarrow> outcome) \<Rightarrow> nat \<Rightarrow> ustr" where
  "final post a =
     (case post a of
        Response status content body \<Rightarrow>
          if status = 200 then (case content of Some c \<Rightarrow> strip c | None \<Rightarrow> oops_msg)
          else llm_error status body
      | TimeoutError \<Rightarrow> froze_msg
      | OtherException \<Rightarrow> oops_msg)"

section \<open>Messages and the trigger classifier\<close>

text \<open>
  What the handler reads of an update: the message (which may be missing), its text, the
  type of its chat (missing when the message has no chat), the chat id, the sender, and
  the sender of the message it replies to (no reply, or a reply to a message with or
  without a sender).
\<close>

record tg_user =
  first_name :: ustr
  username :: "ustr option"

record tg_message =
  msg_text :: "ustr option"
  msg_chat_type :: "ustr option"
  msg_chat_id :: int
  msg_from_user :: "tg_user option"
  msg_reply_to :: "tg_user option option"

definition is_group :: "tg_message option \<Rightarrow> bool" where
  "is_group update =
     (case update of
        None \<Rightarrow> False
      | Some msg \<Rightarrow>
          (case msg_chat_type msg of
             None \<Rightarrow> False
           | Some t \<Rightarrow> t = u ''group'' \<or> t = u ''supergroup''))"

definition normalize_text :: "ustr \<Rightarrow> ustr" where
  "normalize_text s = collapse_ws (strip s)"

definition should_answer_with_llm :: "interpreter \<Rightarrow> tg_message option \<Rightarrow> ustr \<Rightarrow> bool" where
  "should_answer_with_llm U update bot_username =
     (case update of
        None \<Rightarrow> False
      | Some msg \<Rightarrow>
          (case msg_text msg of
             None \<Rightarrow> False
           | Some t \<Rightarrow>
               if t = [] then False
               else if bot_username \<noteq> [] \<and> py_in (py_lower U (64 # bot_username)) (py_lower U t)
               then True
               else (case msg_reply_to msg of
                       Some (Some usr) \<Rightarrow> username usr = Some bot_username
                     | _ \<Rightarrow> False)))"

definition roast_candidate_name :: "tg_message option \<Rightarrow> ustr" where
  "roast_candidate_name update =
     (case update of
        None \<Rightarrow> u ''love''
      | Some msg \<Rightarrow>
          (case msg_from_user msg of
             None \<Rightarrow> u ''love''
           | Some usr \<Rightarrow> if first_name usr \<noteq> [] then first_name usr else u ''love''))"

text \<open>\<open>random.randint(1, 50) == 1\<close>, on the number drawn.\<close>

definition roast_probability :: "nat \<Rightarrow> bool" where
  "roast_probability drawn = (drawn = 1)"

section \<open>Prompt builder\<close>

text \<open>
  \<open>build_prompt\<close> in its three steps: the cleaned user text, the context block made of
  \<open>list(history)[-2:]\<close>, and the template around them.
\<close>

definition cleaned_text :: "interpreter \<Rightarrow> ustr \<Rightarrow> ustr \<Rightarrow> ustr" where
  "cleaned_text U user_text bot_username =
     take 800 (strip (re_sub_mention U bot_username user_text))"

definition last_two :: "ustr list \<Rightarrow> ustr list" where
  "last_two history = drop (length history - 2) history"

definition context_block :: "ustr list \<Rightarrow> ustr" where
  "context_block history = py_join [10] (map (\<lambda>h. u ''- '' @ h) (last_two history))"

definition build_prompt :: "interpreter \<Rightarrow> ustr \<Rightarrow> ustr list \<Rightarrow> ustr \<Rightarrow> ustr" where
  "build_prompt U user_text history bot_username =
     u ''You are a bot in a telegram groupchat. Reply in 1-4 sentences and be helpful and clear''
     @ [10, 10] @ u ''Recent chat context:'' @ [10]
     @ context_block history
     @ [10, 10] @ u ''The user is addressing you directly and asked:'' @ [10]
     @ cleaned_text U user_text bot_username
     @ [10, 10] @ u ''Reply:''"

section \<open>Handler\<close>

text \<open>
  \<open>CHAT_HISTORY\<close> is a \<open>defaultdict\<close> of deques of capacity 3: reading a missing key stores
  an empty deque under it, and appending to a full deque drops its oldest entry.
\<close>

type_synonym history = "int \<rightharpoonup> ustr list"

definition getitem :: "history \<Rightarrow> int \<Rightarrow> ustr list \<times> history" where
  "getitem H k = (case H k of Some d \<Rightarrow> (d, H) | None \<Rightarrow> ([], H(k \<mapsto> [])))"

definition deque_append :: "ustr list \<Rightarrow> ustr \<Rightarrow> ustr list" where
  "deque_append d x = (let d' = d @ [x] in if length d' > 3 then tl d' else d')"

text \<open>The entries a later read of the chat's history sees.\<close>

definition history_of :: "history \<Rightarrow> int \<Rightarrow> ustr list" where
  "history_of H k = (case H k of Some d \<Rightarrow> d | None \<Rightarrow> [])"

record bot_state =
  CHAT_HISTORY :: history
  LAST_ROAST_AT :: cooldown

text \<open>
  What one call of the handler meets: the bot's username (which may be missing), the
  endpoint's answers to the prompt sent, the number \<open>random.randint\<close> draws, the line
  \<open>random.choice\<close> picks, and the clock.
\<close>

record env =
  env_username :: "ustr option"
  env_post :: "ustr \<Rightarrow> nat \<Rightarrow> outcome"
  env_randint :: nat
  env_choice :: ustr
  env_now :: real

text \<open>The reply's post-processing, lines 186 to 193 of the handler.\<close>

definition post_process :: "ustr \<Rightarrow> ustr" where
  "post_process reply0 =
     (let reply = strip reply0;
          reply = (if reply = [] then u ''What love? Ask me again, please.'' else reply)
      in if length reply > 3500 then rsplit1_head (take 3500 reply) @ [8230] else reply)"

text \<open>The recording of the message, lines 176 to 178.\<close>

definition record_message :: "history \<Rightarrow> int \<Rightarrow> ustr \<Rightarrow> ustr \<Rightarrow> history" where
  "record_message H chat_id user_name txt =
     (if \<not> startswith txt (u ''/'')
      then (let (d, H') = getitem H chat_id
            in H'(chat_id \<mapsto> deque_append d (user_name @ u '': '' @ take 120 txt)))
      else H)"

definition on_text ::
  "interpreter \<Rightarrow> env \<Rightarrow> tg_message option \<Rightarrow> bot_state \<Rightarrow> bot_state \<times> ustr option" where
  "on_text U e update st =
     (case update of
        None \<Rightarrow> (st, None)
      | Some msg \<Rightarrow>
          (case msg_text msg of
             None \<Rightarrow> (st, None)
           | Some raw \<Rightarrow>
               if raw = [] then (st, None)
               else if \<not> is_group update then (st, None)
               else
                 (let chat_id = msg_chat_id msg;
                      bot_username = (case env_username e of None \<Rightarrow> [] | Some n \<Rightarrow> n);
                      user_name = roast_candidate_name update;
                      txt = normalize_text raw;
                      H1 = record_message (CHAT_HISTORY st) chat_id user_name txt
                  in if should_answer_with_llm U update bot_username then
                       (let (d, H2) = getitem H1 chat_id;
                            prompt = build_prompt U txt d bot_username;
                            reply = post_process (fst (hf_generate (env_post e prompt)))
                        in (st\<lparr>CHAT_HISTORY := H2\<rparr>, Some reply))
                     else if roast_probability (env_randint e) then
                       (let (allowed, L) = roast_allowed U (env_now e) chat_id (LAST_ROAST_AT st)
                        in (st\<lparr>CHAT_HISTORY := H1, LAST_ROAST_AT := L\<rparr>,
                            if allowed then Some (user_name @ u '' '' @ env_choice e) else None))
                     else (st\<lparr>CHAT_HISTORY := H1\<rparr>, None))))"

text \<open>The handler called on one update after the other, each with what it meets.\<close>

fun on_texts ::
  "interpreter \<Rightarrow> (env \<times> tg_message option) list \<Rightarrow> bot_state \<Rightarrow> bot_state" where
  "on_texts U [] st = st"
| "on_texts U ((e, update) # calls) st = on_texts U calls (fst (on_text U e update st))"

definition bounded :: "history \<Rightarrow> bool" where
  "bounded H = (\<forall>k d. H k = Some d \<longrightarrow> length d \<le> 3)"

text \<open>
  The truncation in the words of the specification, to compare \<open>post_process\<close> with: the
  reply cut at the last white space before the limit of 3500 characters, and the ellipsis.
\<close>

definition spec_truncate :: "ustr \<Rightarrow> ustr" where
  "spec_truncate reply =
     (let s = take 3500 reply
      in (if list_ex py_isspace s then rev (tl (dropWhile (\<lambda>c. \<not> py_isspace c) (rev s))) else s)
         @ [8230])"

text \<open>
  The mentions of a text, to compare \<open>re_sub_mention\<close> with: the pattern \<open>p\<close> occurs in \<open>s\<close> at
  position \<open>i\<close>, letter case apart.
\<close>

definition occurs_at :: "interpreter \<Rightarrow> ustr \<Rightarrow> ustr \<Rightarrow> nat \<Rightarrow> bool" where
  "occurs_at U p s i = matches_at U p (drop i s)"

text \<open>
  An interpreter for the closed examples, which need one: it leaves every non-ASCII
  character and every difference as they are. The examples hold ASCII characters and
  whole seconds only, for which the parameters are not consulted.
\<close>

definition ascii_only :: interpreter where
  "ascii_only =
     \<lparr>lower_table = (\<lambda>s i. [s ! i]), match_table = (\<lambda>p c. p = c), round_double = (\<lambda>x. x)\<rparr>"

section \<open>Cooldown tracker: results\<close>

lemma roast_allowed_recorded:
  "L chat_id = Some t \<Longrightarrow>
   roast_allowed U now chat_id L =
     (if 120 \<le> float_sub U now t then (True, L(chat_id \<mapsto> now)) else (False, L))"
  by (simp add: roast_allowed_def)

lemma roast_allowed_twice:
  assumes "roast_allowed U t1 chat_id s = (True, s1)"
  shows "fst (roast_allowed U t2 chat_id s1) = (120 \<le> float_sub U t2 t1)"
  using assms by (auto simp: roast_allowed_def Let_def split: if_splits option.splits)

lemma roast_allowed_fresh:
  "L chat_id = None \<Longrightarrow>
   roast_allowed U now chat_id L =
     (if 120 \<le> float_sub U now 0 then (True, L(chat_id \<mapsto> now)) else (False, L))"
  by (simp add: roast_allowed_def)

lemma whole_seconds: "float_sub U 50 0 = 50 \<and> float_sub U 125 5 = 120"
  by (simp add: float_sub_def)

text \<open>
  C1. The claim: a chat with no recorded roast is allowed at once. On the code the missing
  entry reads as time 0.0, so a first call made while the monotonic clock is still below
  120 seconds is refused and nothing is recorded. Here the clock reads 50.0 and the table
  is empty; the difference 50.0 - 0.0 is exact.
\<close>

theorem roast_allowed_first_call_refused:
  "roast_allowed U 50 1 Map.empty = (False, Map.empty)"
  by (simp add: roast_allowed_def float_sub_def)

section \<open>Completion client: results\<close>

lemma busy_distinct: "busy_msg \<noteq> froze_msg \<and> busy_msg \<noteq> oops_msg \<and> froze_msg \<noteq> oops_msg"
  by (simp add: busy_msg_def froze_msg_def oops_msg_def u_def)

lemma hf_attempts_trace:
  "hf_attempts post as tr = (fst (hf_attempts post as []), tr @ snd (hf_attempts post as []))"
proof (induction as arbitrary: tr)
  case Nil
  show ?case by simp
next
  case (Cons a as)
  note IH = Cons.IH
  show ?case
  proof (cases "post a")
    case (Response status content body)
    then show ?thesis
      using IH [of "tr @ [Post]"] IH [of "[Post]"]
        IH [of "tr @ [Post, Sleep (1.2 + real a * 0.8)]"] IH [of "[Post, Sleep (1.2 + real a * 0.8)]"]
      by (cases content) simp_all
  next
    case TimeoutError
    then show ?thesis using IH [of "tr @ [Post]"] IH [of "[Post]"] by simp
  next
    case OtherException
    then show ?thesis using IH [of "tr @ [Post]"] IH [of "[Post]"] by simp
  qed
qed

lemma hf_attempts_step:
  "hf_attempts post (a # rest) [] =
     (if continues post a
      then (fst (hf_attempts post rest []), Post # pause post a @ snd (hf_attempts post rest []))
      else (final post a, Post # pause post a))"
proof (cases "post a")
  case (Response status content body)
  then show ?thesis
    using hf_attempts_trace [of post rest "[Post]"]
      hf_attempts_trace [of post rest "[Post, Sleep (1.2 + real a * 0.8)]"]
    by (cases content; cases "a = 2") (simp_all add: continues_def pause_def final_def busy_status_def)
next
  case TimeoutError
  then show ?thesis
    using hf_attempts_trace [of post rest "[Post]"]
    by (cases "a = 2") (simp_all add: continues_def pause_def final_def busy_status_def)
next
  case OtherException
  then show ?thesis
    using hf_attempts_trace [of post rest "[Post]"]
    by (cases "a = 2") (simp_all add: continues_def pause_def final_def busy_status_def)
qed

lemma last_attempt_stops: "continues post 2 \<Longrightarrow> busy_status (post 2)"
  by (auto simp: continues_def busy_status_def split: outcome.splits)

lemma busy_continues: "busy_status (post a) \<Longrightarrow> continues post a"
  by (auto simp: continues_def busy_status_def split: outcome.splits)

lemma hf_generate_run:
  "hf_generate post =
     (if continues post 0 then
        if continues post 1 then
          if continues post 2 then (busy_msg, Post # pause post 0 @ Post # pause post 1 @ Post # pause post 2)
          else (final post 2, Post # pause post 0 @ Post # pause post 1 @ Post # pause post 2)
        else (final post 1, Post # pause post 0 @ Post # pause post 1)
      else (final post 0, Post # pause post 0))"
  by (simp add: hf_generate_def hf_attempts_step del: hf_attempts.simps(2))


lemma pause_filter: "filter (\<lambda>e. e = Post) (pause post a) = []"
  by (simp add: pause_def)

lemma after_post_pause: "after_post i (pause post a @ tr) = after_post i tr"
  by (simp add: pause_def)

lemma made_0: "attempt_made 0 (snd (hf_generate post))"
  by (simp add: hf_generate_run attempt_made_def)

lemma made_1: "attempt_made (Suc 0) (snd (hf_generate post)) = continues post 0"
  by (simp add: hf_generate_run attempt_made_def pause_filter)

lemma made_2: "attempt_made 2 (snd (hf_generate post)) = (continues post 0 \<and> continues post 1)"
  by (simp add: hf_generate_run attempt_made_def pause_filter)

lemma after_0:
  "after_post 0 (snd (hf_generate post)) =
     pause post 0 @ (if continues post 0 then Post # pause post 1 @ (if continues post 1 then Post # pause post 2 else []) else [])"
  by (simp add: hf_generate_run)

lemma after_1:
  "continues post 0 \<Longrightarrow>
   after_post (Suc 0) (snd (hf_generate post)) =
     pause post 1 @ (if continues post 1 then Post # pause post 2 else [])"
  by (simp add: hf_generate_run after_post_pause)

lemma after_2:
  "continues post 0 \<Longrightarrow> continues post 1 \<Longrightarrow>
   after_post 2 (snd (hf_generate post)) = pause post 2"
  by (simp add: hf_generate_run after_post_pause numeral_2_eq_2)

lemma result_at:
  "i < 3 \<Longrightarrow> attempt_made i (snd (hf_generate post)) \<Longrightarrow> \<not> continues post i \<Longrightarrow>
   fst (hf_generate post) = final post i \<and> after_post i (snd (hf_generate post)) = pause post i"
proof -
  assume "i < 3" and m: "attempt_made i (snd (hf_generate post))" and c: "\<not> continues post i"
  then consider "i = 0" | "i = Suc 0" | "i = 2" by arith
  then show ?thesis
  proof cases
    case 1
    with c show ?thesis by (simp add: after_0) (simp add: hf_generate_run)
  next
    case 2
    with c m show ?thesis by (simp add: made_1 after_1) (simp add: hf_generate_run)
  next
    case 3
    with c m show ?thesis by (simp add: made_2 after_2) (simp add: hf_generate_run)
  qed
qed

lemma continue_at:
  "i < 3 \<Longrightarrow> attempt_made i (snd (hf_generate post)) \<Longrightarrow> continues post i \<Longrightarrow>
   after_post i (snd (hf_generate post)) = pause post i @ (if i < 2 then Post # after_post (Suc i) (snd (hf_generate post)) else [])
   \<and> (i = 2 \<longrightarrow> fst (hf_generate post) = busy_msg)"
proof -
  assume "i < 3" and m: "attempt_made i (snd (hf_generate post))" and c: "continues post i"
  then consider "i = 0" | "i = Suc 0" | "i = 2" by arith
  then show ?thesis
  proof cases
    case 1
    with c show ?thesis by (simp add: after_0 after_1)
  next
    case 2
    with c m show ?thesis by (simp add: made_1 after_1 after_2 numeral_2_eq_2 [symmetric])
  next
    case 3
    with c m show ?thesis by (simp add: made_2 after_2) (simp add: hf_generate_run)
  qed
qed


lemma pause_busy: "busy_status (post a) \<Longrightarrow> pause post a = [Sleep (1.2 + 0.8 * real a)]"
  by (simp add: pause_def)

lemma pause_not_busy: "\<not> busy_status (post a) \<Longrightarrow> pause post a = []"
  by (simp add: pause_def)

text \<open>
  C2. When attempt \<open>i\<close> (0-based, of 3) is made and answered with status 429 or 503, the
  post is followed by a sleep of exactly \<open>1.2 + 0.8 * i\<close> seconds, and then by the next post
  when an attempt is left; after the third attempt the sleep ends the run and the busy
  string is returned. Three such answers give the sleeps 1.2, 2.0 and 2.8 and the busy
  string, which differs from the two other fallback strings.
\<close>

theorem hf_generate_backoff:
  "(i < 3 \<and> attempt_made i (snd (hf_generate post)) \<and> busy_status (post i) \<longrightarrow>
      take 2 (after_post i (snd (hf_generate post))) =
        (if i < 2 then [Sleep (1.2 + 0.8 * real i), Post] else [Sleep (1.2 + 0.8 * real i)])
      \<and> (i = 2 \<longrightarrow> fst (hf_generate post) = busy_msg))
   \<and> (busy_status (post 0) \<and> busy_status (post 1) \<and> busy_status (post 2) \<longrightarrow>
      hf_generate post = (busy_msg, [Post, Sleep 1.2, Post, Sleep 2, Post, Sleep 2.8]))
   \<and> busy_msg \<noteq> froze_msg \<and> busy_msg \<noteq> oops_msg"
proof (intro conjI impI)
  assume h: "i < 3 \<and> attempt_made i (snd (hf_generate post)) \<and> busy_status (post i)"
  then have c: "continues post i" by (simp add: busy_continues)
  from h c have a: "after_post i (snd (hf_generate post)) =
      pause post i @ (if i < 2 then Post # after_post (Suc i) (snd (hf_generate post)) else [])"
    and b: "i = 2 \<longrightarrow> fst (hf_generate post) = busy_msg"
    using continue_at [of i post] by simp_all
  from h have p: "pause post i = [Sleep (1.2 + 0.8 * real i)]" by (simp add: pause_busy)
  show "take 2 (after_post i (snd (hf_generate post))) =
        (if i < 2 then [Sleep (1.2 + 0.8 * real i), Post] else [Sleep (1.2 + 0.8 * real i)])"
    by (subst a) (simp add: p)
  assume "i = 2"
  with b show "fst (hf_generate post) = busy_msg" by simp
next
  assume h: "busy_status (post 0) \<and> busy_status (post 1) \<and> busy_status (post 2)"
  then have "continues post 0" "continues post 1" "continues post 2"
    by (simp_all add: busy_continues)
  moreover from h have "pause post 0 = [Sleep 1.2]" "pause post 1 = [Sleep 2]" "pause post 2 = [Sleep 2.8]"
    by (simp_all add: pause_busy)
  ultimately show "hf_generate post = (busy_msg, [Post, Sleep 1.2, Post, Sleep 2, Post, Sleep 2.8])"
    by (simp add: hf_generate_run)
next
  show "busy_msg \<noteq> froze_msg" using busy_distinct by simp
  show "busy_msg \<noteq> oops_msg" using busy_distinct by simp
qed

theorem hf_generate_backoff_witness:
  "(1::nat) < 3 \<and> (2::nat) < 3
   \<and> attempt_made 1 (snd (hf_generate (\<lambda>i. Response 503 None [])))
   \<and> attempt_made 2 (snd (hf_generate (\<lambda>i. Response 503 None [])))
   \<and> busy_status (Response 503 None [])
   \<and> take 2 (after_post 1 (snd (hf_generate (\<lambda>i. Response 503 None [])))) = [Sleep 2, Post]
   \<and> take 2 (after_post 2 (snd (hf_generate (\<lambda>i. Response 503 None [])))) = [Sleep 2.8]
   \<and> hf_generate (\<lambda>i. Response 503 None []) = (busy_msg, [Post, Sleep 1.2, Post, Sleep 2, Post, Sleep 2.8])"
  using hf_generate_backoff [of 1 "\<lambda>i. Response 503 None []"]
    hf_generate_backoff [of 2 "\<lambda>i. Response 503 None []"]
  by (simp add: busy_status_def attempt_made_def numeral_2_eq_2)

lemma exception_continues:
  "a \<noteq> 2 \<Longrightarrow> post a = TimeoutError \<or> post a = OtherException \<or> (\<exists>body. post a = Response 200 None body)
   \<Longrightarrow> continues post a \<and> \<not> busy_status (post a)"
  by (auto simp: continues_def busy_status_def)

text \<open>
  C3. A timeout on the first or second attempt is swallowed: the next event of the run is
  the next post, with no sleep between. A timeout on the third attempt returns the
  "brain froze" string and ends the run. Any other exception (one raised while decoding a
  200 response among them) does the same with the "something broke" string, which is a
  different string. An endpoint that always times out gives the "brain froze" string
  after exactly three posts and no sleep.
\<close>

theorem hf_generate_timeout:
  "(i < 2 \<and> attempt_made i (snd (hf_generate post))
      \<and> (post i = TimeoutError \<or> post i = OtherException \<or> post i = Response 200 None body) \<longrightarrow>
      take 1 (after_post i (snd (hf_generate post))) = [Post])
   \<and> (attempt_made 2 (snd (hf_generate post)) \<and> post 2 = TimeoutError \<longrightarrow>
      fst (hf_generate post) = froze_msg \<and> after_post 2 (snd (hf_generate post)) = [])
   \<and> (attempt_made 2 (snd (hf_generate post))
      \<and> (post 2 = OtherException \<or> post 2 = Response 200 None body) \<longrightarrow>
      fst (hf_generate post) = oops_msg \<and> after_post 2 (snd (hf_generate post)) = [])
   \<and> oops_msg \<noteq> froze_msg
   \<and> (post 0 = TimeoutError \<and> post 1 = TimeoutError \<and> post 2 = TimeoutError \<longrightarrow>
      hf_generate post = (froze_msg, [Post, Post, Post]))"
proof (intro conjI impI)
  assume h: "i < 2 \<and> attempt_made i (snd (hf_generate post))
      \<and> (post i = TimeoutError \<or> post i = OtherException \<or> post i = Response 200 None body)"
  then have c: "continues post i \<and> \<not> busy_status (post i)"
    using exception_continues [of i post] by auto
  with h have "after_post i (snd (hf_generate post)) =
      pause post i @ (if i < 2 then Post # after_post (Suc i) (snd (hf_generate post)) else [])"
    using continue_at [of i post] by simp
  with h c show "take 1 (after_post i (snd (hf_generate post))) = [Post]"
    by (simp add: pause_not_busy)
next
  assume h: "attempt_made 2 (snd (hf_generate post)) \<and> post 2 = TimeoutError"
  then have c: "\<not> continues post 2" "\<not> busy_status (post 2)" "final post 2 = froze_msg"
    by (simp_all add: continues_def busy_status_def final_def)
  with h show "fst (hf_generate post) = froze_msg" "after_post 2 (snd (hf_generate post)) = []"
    using result_at [of 2 post] by (simp_all add: pause_not_busy)
next
  assume h: "attempt_made 2 (snd (hf_generate post))
      \<and> (post 2 = OtherException \<or> post 2 = Response 200 None body)"
  then have c: "\<not> continues post 2" "\<not> busy_status (post 2)" "final post 2 = oops_msg"
    by (auto simp: continues_def busy_status_def final_def)
  with h show "fst (hf_generate post) = oops_msg" "after_post 2 (snd (hf_generate post)) = []"
    using result_at [of 2 post] by (simp_all add: pause_not_busy)
next
  show "oops_msg \<noteq> froze_msg" using busy_distinct by auto
next
  assume h: "post 0 = TimeoutError \<and> post 1 = TimeoutError \<and> post 2 = TimeoutError"
  then show "hf_generate post = (froze_msg, [Post, Post, Post])"
    by (simp add: hf_generate_def)
qed

theorem hf_generate_timeout_witness:
  "(0::nat) < 2 \<and> attempt_made 0 (snd (hf_generate (\<lambda>i. TimeoutError)))
   \<and> attempt_made 2 (snd (hf_generate (\<lambda>i. TimeoutError)))
   \<and> take 1 (after_post 0 (snd (hf_generate (\<lambda>i. TimeoutError)))) = [Post]
   \<and> after_post 2 (snd (hf_generate (\<lambda>i. TimeoutError))) = []
   \<and> hf_generate (\<lambda>i. TimeoutError) = (froze_msg, [Post, Post, Post])
   \<and> attempt_made 2 (snd (hf_generate (\<lambda>i. OtherException)))
   \<and> fst (hf_generate (\<lambda>i. OtherException)) = oops_msg
   \<and> after_post 2 (snd (hf_generate (\<lambda>i. OtherException))) = []"
  using hf_generate_timeout [of 0 "\<lambda>i. TimeoutError" "[]"]
    hf_generate_timeout [of 0 "\<lambda>i. OtherException" "[]"]
  by (simp add: attempt_made_def numeral_2_eq_2 hf_generate_def)

text \<open>
  C4. When an attempt is made and answered with status 200 and a body that holds the first
  choice's message content, the function returns that content stripped of surrounding
  white space, and nothing follows the post: no sleep and no further attempt.
\<close>

theorem hf_generate_success:
  assumes "i < 3" and "attempt_made i (snd (hf_generate post))"
    and "post i = Response 200 (Some c) body"
  shows "fst (hf_generate post) = strip c \<and> after_post i (snd (hf_generate post)) = []"
proof -
  from assms(3) have "\<not> continues post i" "\<not> busy_status (post i)" "final post i = strip c"
    by (simp_all add: continues_def busy_status_def final_def)
  with assms(1,2) show ?thesis
    using result_at [of i post] by (simp add: pause_not_busy)
qed

theorem hf_generate_success_witness:
  "(1::nat) < 3
   \<and> attempt_made 1 (snd (hf_generate (\<lambda>i. if i = 0 then Response 503 None [] else Response 200 (Some (u '' ok '')) [])))
   \<and> fst (hf_generate (\<lambda>i. if i = 0 then Response 503 None [] else Response 200 (Some (u '' ok '')) [])) = u ''ok''
   \<and> snd (hf_generate (\<lambda>i. if i = 0 then Response 503 None [] else Response 200 (Some (u '' ok '')) [])) = [Post, Sleep 1.2, Post]"
  using hf_generate_success [of 1 "\<lambda>i. if i = 0 then Response 503 None [] else Response 200 (Some (u '' ok '')) []" "u '' ok ''" "[]"]
  by (simp add: attempt_made_def hf_generate_def strip_def u_def py_isspace_def)

text \<open>
  C5. When an attempt is made and answered with a status other than 200, 429 and 503, the
  function returns at once (nothing follows the post) the string made of
  \<open>(LLM error\<close>, the status in decimal, the first 3500 characters of the body at most, and
  an ellipsis.
\<close>

theorem hf_generate_other_status:
  assumes "i < 3" and "attempt_made i (snd (hf_generate post))"
    and "post i = Response status content body"
    and "status \<noteq> 200" and "status \<noteq> 429" and "status \<noteq> 503"
  shows "fst (hf_generate post) = u ''(LLM error '' @ decimal status @ u '') '' @ take 3500 body @ [8230]
         \<and> after_post i (snd (hf_generate post)) = []"
proof -
  from assms(3-6) have "\<not> continues post i" "\<not> busy_status (post i)"
      "final post i = llm_error status body"
    by (simp_all add: continues_def busy_status_def final_def)
  with assms(1,2) show ?thesis
    using result_at [of i post] by (simp add: pause_not_busy llm_error_def)
qed

theorem hf_generate_other_status_witness:
  "(0::nat) < 3 \<and> attempt_made 0 (snd (hf_generate (\<lambda>i. Response 404 None (u ''gone''))))
   \<and> (404::nat) \<noteq> 200 \<and> (404::nat) \<noteq> 429 \<and> (404::nat) \<noteq> 503
   \<and> hf_generate (\<lambda>i. Response 404 None (u ''gone'')) = (u ''(LLM error 404) gone'' @ [8230], [Post])"
  using hf_generate_other_status [of 0 "\<lambda>i. Response 404 None (u ''gone'')" 404 None "u ''gone''"]
  by (simp add: attempt_made_def hf_generate_def llm_error_def decimal.simps u_def)

section \<open>Conversation context: results\<close>

lemma deque_append_length: "length d \<le> 3 \<Longrightarrow> length (deque_append d x) \<le> 3"
  by (simp add: deque_append_def Let_def)

lemma deque_append_full: "length d = 3 \<Longrightarrow> deque_append d x = tl d @ [x]"
  by (cases d) (simp_all add: deque_append_def Let_def)

lemma getitem_bounded:
  "bounded H \<Longrightarrow> getitem H k = (d, H') \<Longrightarrow> bounded H' \<and> length d \<le> 3"
  by (auto simp: bounded_def getitem_def split: option.splits if_splits)

lemma record_message_bounded: "bounded H \<Longrightarrow> bounded (record_message H k n t)"
proof (cases "startswith t (u ''/'')")
  case True
  assume "bounded H"
  with True show ?thesis by (simp add: record_message_def)
next
  case False
  assume b: "bounded H"
  obtain d H' where g: "getitem H k = (d, H')" by (cases "getitem H k")
  with b have "bounded H'" "length d \<le> 3" using getitem_bounded by blast+
  then have "bounded (H'(k \<mapsto> deque_append d (n @ u '': '' @ take 120 t)))"
    using deque_append_length [of d] by (auto simp: bounded_def)
  with False g show ?thesis by (simp add: record_message_def)
qed

lemma on_text_bounded:
  assumes "bounded (CHAT_HISTORY st)"
  shows "bounded (CHAT_HISTORY (fst (on_text U e update st)))"
proof (cases update)
  case None
  with assms show ?thesis by (simp add: on_text_def)
next
  case (Some msg)
  show ?thesis
  proof (cases "msg_text msg")
    case None
    with Some assms show ?thesis by (simp add: on_text_def)
  next
    case (Some raw)
    note raw = this
    let ?H1 = "record_message (CHAT_HISTORY st) (msg_chat_id msg)
                 (roast_candidate_name update) (normalize_text raw)"
    have b1: "bounded ?H1" using assms by (rule record_message_bounded)
    obtain d H2 where g: "getitem ?H1 (msg_chat_id msg) = (d, H2)"
      by (cases "getitem ?H1 (msg_chat_id msg)")
    with b1 have b2: "bounded H2" using getitem_bounded by blast
    from \<open>update = Some msg\<close> raw assms b1 b2 g show ?thesis
      by (simp add: on_text_def Let_def split: prod.splits)
  qed
qed

lemma on_texts_bounded:
  "bounded (CHAT_HISTORY st) \<Longrightarrow> bounded (CHAT_HISTORY (on_texts U calls st))"
  by (induction calls arbitrary: st) (auto simp: on_text_bounded)

lemma deque_last_three: "foldl deque_append [] xs = drop (length xs - 3) xs"
proof (induction xs rule: rev_induct)
  case Nil
  show ?case by simp
next
  case (snoc x xs)
  show ?case
  proof (cases "length xs < 3")
    case True
    with snoc show ?thesis by (simp add: deque_append_def Let_def)
  next
    case False
    then have "length (drop (length xs - 3) xs) = 3" by simp
    then have "deque_append (drop (length xs - 3) xs) x = tl (drop (length xs - 3) xs) @ [x]"
      by (rule deque_append_full)
    also have "tl (drop (length xs - 3) xs) = drop (Suc (length xs - 3)) xs"
      by (simp add: drop_Suc tl_drop)
    also from False have "Suc (length xs - 3) = length (xs @ [x]) - 3" by simp
    finally show ?thesis using snoc False by simp
  qed
qed

text \<open>
  C8. Whatever updates the handler is called on, starting from the empty dictionary, no
  chat's deque holds more than 3 entries. A deque that received the entries \<open>xs\<close> holds the
  last three of them in order: the append to a full deque drops the oldest entry.
\<close>

theorem chat_history_bounded:
  "(CHAT_HISTORY (on_texts U calls \<lparr>CHAT_HISTORY = Map.empty, LAST_ROAST_AT = L\<rparr>) k = Some d
      \<longrightarrow> length d \<le> 3)
   \<and> length (foldl deque_append [] xs) \<le> 3
   \<and> foldl deque_append [] xs = drop (length xs - 3) xs
   \<and> deque_append [a, b, c] x = [b, c, x]"
proof (intro conjI impI)
  have "bounded (CHAT_HISTORY \<lparr>CHAT_HISTORY = Map.empty, LAST_ROAST_AT = L\<rparr>)"
    by (simp add: bounded_def)
  then have "bounded (CHAT_HISTORY (on_texts U calls \<lparr>CHAT_HISTORY = Map.empty, LAST_ROAST_AT = L\<rparr>))"
    by (rule on_texts_bounded)
  moreover assume "CHAT_HISTORY (on_texts U calls \<lparr>CHAT_HISTORY = Map.empty, LAST_ROAST_AT = L\<rparr>) k = Some d"
  ultimately show "length d \<le> 3" by (simp add: bounded_def)
next
  show "length (foldl deque_append [] xs) \<le> 3" by (simp add: deque_last_three)
  show "foldl deque_append [] xs = drop (length xs - 3) xs" by (rule deque_last_three)
  show "deque_append [a, b, c] x = [b, c, x]" by (simp add: deque_append_def Let_def)
qed

lemmas handler_eval = on_text_def is_group_def normalize_text_def strip_def py_isspace_def
  record_message_def getitem_def deque_append_def should_answer_with_llm_def
  roast_candidate_name_def roast_probability_def u_def Let_def py_lower_def ascii_lower_def
  ascii_only_def

lemma four_messages:
  "CHAT_HISTORY
     (on_texts ascii_only
        (map (\<lambda>t. (\<lparr>env_username = Some (u ''bot''), env_post = (\<lambda>p i. TimeoutError),
                       env_randint = 2, env_choice = [], env_now = 0\<rparr>,
                     Some \<lparr>msg_text = Some t, msg_chat_type = Some (u ''group''), msg_chat_id = 7,
                           msg_from_user = None, msg_reply_to = None\<rparr>))
           [u ''a'', u ''b'', u ''c'', u ''d''])
        \<lparr>CHAT_HISTORY = Map.empty, LAST_ROAST_AT = Map.empty\<rparr>) 7
   = Some [u ''love: b'', u ''love: c'', u ''love: d'']"
  by (simp add: handler_eval)

theorem chat_history_bounded_witness:
  "CHAT_HISTORY
     (on_texts ascii_only
        (map (\<lambda>t. (\<lparr>env_username = Some (u ''bot''), env_post = (\<lambda>p i. TimeoutError),
                       env_randint = 2, env_choice = [], env_now = 0\<rparr>,
                     Some \<lparr>msg_text = Some t, msg_chat_type = Some (u ''group''), msg_chat_id = 7,
                           msg_from_user = None, msg_reply_to = None\<rparr>))
           [u ''a'', u ''b'', u ''c'', u ''d''])
        \<lparr>CHAT_HISTORY = Map.empty, LAST_ROAST_AT = Map.empty\<rparr>) 7
   = Some [u ''love: b'', u ''love: c'', u ''love: d'']
   \<and> length [u ''love: b'', u ''love: c'', u ''love: d''] \<le> 3"
  using four_messages
    chat_history_bounded [of ascii_only
      "map (\<lambda>t. (\<lparr>env_username = Some (u ''bot''), env_post = (\<lambda>p i. TimeoutError),
                       env_randint = 2, env_choice = [], env_now = 0\<rparr>,
                     Some \<lparr>msg_text = Some t, msg_chat_type = Some (u ''group''), msg_chat_id = 7,
                           msg_from_user = None, msg_reply_to = None\<rparr>))
           [u ''a'', u ''b'', u ''c'', u ''d'']"
      Map.empty 7 "[u ''love: b'', u ''love: c'', u ''love: d'']" "[]" "[]" "[]" "[]" "[]"]
  by simp

section \<open>Empty username: results\<close>

lemma at_matches_itself: "sre_ci U 64 c = (c = 64)"
  by (simp add: sre_ci_def ascii_ci_def ascii_lower_def)

lemma re_sub_empty_handle: "re_sub_mention U [] t = filter (\<lambda>c. c \<noteq> 64) t"
  by (induction t) (simp_all add: at_matches_itself)

lemma set_strip: "set (strip s) \<subseteq> set s"
  by (auto simp: strip_def dest!: set_dropWhileD)

lemma username_missing:
  "on_text U (e\<lparr>env_username := None\<rparr>) update st
   = on_text U (e\<lparr>env_username := Some []\<rparr>) update st"
  by (simp add: on_text_def Let_def split: option.splits prod.splits)

text \<open>
  C10. With the empty string for the bot's username (what the handler passes when the
  bot has none), the classifier never answers because of a mention: its verdict is the
  reply-to-bot test alone, and a message that replies to nothing is not answered whatever
  its text. In the prompt builder the pattern is the single character \<open>@\<close>: the
  substitution deletes every \<open>@\<close> of the user text, and the cleaned text holds none.
\<close>

theorem empty_username:
  "should_answer_with_llm U update [] =
     (case update of
        None \<Rightarrow> False
      | Some msg \<Rightarrow>
          (case msg_text msg of
             None \<Rightarrow> False
           | Some t \<Rightarrow>
               t \<noteq> [] \<and> (case msg_reply_to msg of
                            Some (Some usr) \<Rightarrow> username usr = Some []
                          | _ \<Rightarrow> False)))
   \<and> (msg_reply_to msg = None \<longrightarrow> \<not> should_answer_with_llm U (Some msg) [])
   \<and> re_sub_mention U [] user_text = filter (\<lambda>c. c \<noteq> 64) user_text
   \<and> cleaned_text U user_text [] = take 800 (strip (filter (\<lambda>c. c \<noteq> 64) user_text))
   \<and> 64 \<notin> set (cleaned_text U user_text [])"
proof (intro conjI impI)
  show "should_answer_with_llm U update [] =
     (case update of
        None \<Rightarrow> False
      | Some msg \<Rightarrow>
          (case msg_text msg of
             None \<Rightarrow> False
           | Some t \<Rightarrow>
               t \<noteq> [] \<and> (case msg_reply_to msg of
                            Some (Some usr) \<Rightarrow> username usr = Some []
                          | _ \<Rightarrow> False)))"
    by (auto simp: should_answer_with_llm_def split: option.splits)
next
  assume "msg_reply_to msg = None"
  then show "\<not> should_answer_with_llm U (Some msg) []"
    by (simp add: should_answer_with_llm_def split: option.splits)
next
  show "re_sub_mention U [] user_text = filter (\<lambda>c. c \<noteq> 64) user_text"
    by (rule re_sub_empty_handle)
  show "cleaned_text U user_text [] = take 800 (strip (filter (\<lambda>c. c \<noteq> 64) user_text))"
    by (simp add: cleaned_text_def re_sub_empty_handle)
  have "set (cleaned_text U user_text []) \<subseteq> set (strip (filter (\<lambda>c. c \<noteq> 64) user_text))"
    by (simp add: cleaned_text_def re_sub_empty_handle set_take_subset)
  also have "\<dots> \<subseteq> set (filter (\<lambda>c. c \<noteq> 64) user_text)" by (rule set_strip)
  finally show "64 \<notin> set (cleaned_text U user_text [])" by auto
qed

theorem empty_username_witness:
  "msg_reply_to \<lparr>msg_text = Some (u ''hi @bot''), msg_chat_type = Some (u ''group''), msg_chat_id = 7,
                 msg_from_user = None, msg_reply_to = None\<rparr> = None
   \<and> \<not> should_answer_with_llm ascii_only
        (Some \<lparr>msg_text = Some (u ''hi @bot''), msg_chat_type = Some (u ''group''), msg_chat_id = 7,
               msg_from_user = None, msg_reply_to = None\<rparr>) []
   \<and> cleaned_text ascii_only (u ''a@b @@ c'') [] = u ''ab  c''"
  using empty_username [of ascii_only "None"
      "\<lparr>msg_text = Some (u ''hi @bot''), msg_chat_type = Some (u ''group''), msg_chat_id = 7,
        msg_from_user = None, msg_reply_to = None\<rparr>" "u ''a@b @@ c''"]
  by (simp add: u_def strip_def py_isspace_def)

section \<open>Command messages: results\<close>

lemma history_of_getitem:
  "getitem H k = (d, H') \<Longrightarrow> d = history_of H k \<and> history_of H' j = history_of H j"
  by (cases "H k"; cases "j = k") (auto simp: getitem_def history_of_def)

text \<open>
  C9. For a group message whose normalized text starts with \<open>/\<close>, every chat's history
  reads after the call as it read before: the message is not appended (the dictionary
  gains at most an empty deque for the chat, which the \<open>defaultdict\<close> stores when the
  prompt is built, and is left as it was when the bot is not addressed). The classifier is
  still asked: when it says the bot is addressed, the reply is the post-processed answer
  of the completion client to the prompt built from the message.
\<close>

theorem command_not_recorded:
  assumes "update = Some msg" and "msg_text msg = Some raw" and "raw \<noteq> []"
    and "is_group update" and "startswith (normalize_text raw) (u ''/'')"
  shows "history_of (CHAT_HISTORY (fst (on_text U e update st))) k = history_of (CHAT_HISTORY st) k
    \<and> (should_answer_with_llm U update (case env_username e of None \<Rightarrow> [] | Some n \<Rightarrow> n) \<longrightarrow>
         snd (on_text U e update st) =
           Some (post_process (fst (hf_generate (env_post e
             (build_prompt U (normalize_text raw) (history_of (CHAT_HISTORY st) (msg_chat_id msg))
                (case env_username e of None \<Rightarrow> [] | Some n \<Rightarrow> n)))))))
    \<and> (\<not> should_answer_with_llm U update (case env_username e of None \<Rightarrow> [] | Some n \<Rightarrow> n) \<longrightarrow>
         CHAT_HISTORY (fst (on_text U e update st)) = CHAT_HISTORY st)"
proof -
  let ?bot = "case env_username e of None \<Rightarrow> [] | Some n \<Rightarrow> n"
  let ?H = "CHAT_HISTORY st"
  have rec: "record_message ?H (msg_chat_id msg) (roast_candidate_name update) (normalize_text raw) = ?H"
    using assms(5) by (simp add: record_message_def)
  obtain d H2 where g: "getitem ?H (msg_chat_id msg) = (d, H2)"
    by (cases "getitem ?H (msg_chat_id msg)")
  then have d: "d = history_of ?H (msg_chat_id msg)" and h2: "history_of H2 k = history_of ?H k"
    using history_of_getitem by blast+
  show ?thesis
  proof (cases "should_answer_with_llm U update ?bot")
    case True
    with assms(1-4) rec g d h2 show ?thesis
      by (simp add: on_text_def Let_def)
  next
    case False
    with assms(1-4) rec show ?thesis
      by (simp add: on_text_def Let_def split: prod.splits)
  qed
qed

lemma command_sample:
  "normalize_text (u ''/help  @Bot'') = u ''/help @Bot''
   \<and> should_answer_with_llm ascii_only
        (Some \<lparr>msg_text = Some (u ''/help  @Bot''), msg_chat_type = Some (u ''group''),
               msg_chat_id = 7, msg_from_user = None, msg_reply_to = None\<rparr>) (u ''bot'')"
  by (simp add: handler_eval)

lemma plain_command_sample:
  "normalize_text (u ''/help'') = u ''/help''
   \<and> \<not> should_answer_with_llm ascii_only
        (Some \<lparr>msg_text = Some (u ''/help''), msg_chat_type = Some (u ''group''),
               msg_chat_id = 7, msg_from_user = None, msg_reply_to = None\<rparr>) (u ''bot'')"
  by (simp add: handler_eval)

theorem command_not_recorded_witness:
  "msg_text \<lparr>msg_text = Some (u ''/help  @Bot''), msg_chat_type = Some (u ''group''),
               msg_chat_id = 7, msg_from_user = None, msg_reply_to = None\<rparr> = Some (u ''/help  @Bot'')
   \<and> u ''/help  @Bot'' \<noteq> []
   \<and> is_group (Some \<lparr>msg_text = Some (u ''/help  @Bot''), msg_chat_type = Some (u ''group''),
               msg_chat_id = 7, msg_from_user = None, msg_reply_to = None\<rparr>)
   \<and> startswith (normalize_text (u ''/help  @Bot'')) (u ''/'')
   \<and> should_answer_with_llm ascii_only (Some \<lparr>msg_text = Some (u ''/help  @Bot''), msg_chat_type = Some (u ''group''),
               msg_chat_id = 7, msg_from_user = None, msg_reply_to = None\<rparr>) (u ''bot'')
   \<and> history_of (CHAT_HISTORY (fst (on_text ascii_only \<lparr>env_username = Some (u ''bot''), env_post = (\<lambda>p i. Response 200 (Some (u '' ok '')) []),
          env_randint = 2, env_choice = [], env_now = 0\<rparr> (Some \<lparr>msg_text = Some (u ''/help  @Bot''), msg_chat_type = Some (u ''group''),
               msg_chat_id = 7, msg_from_user = None, msg_reply_to = None\<rparr>) \<lparr>CHAT_HISTORY = [7 \<mapsto> [u ''ann: hello'']], LAST_ROAST_AT = Map.empty\<rparr>))) 7 = [u ''ann: hello'']
   \<and> snd (on_text ascii_only \<lparr>env_username = Some (u ''bot''), env_post = (\<lambda>p i. Response 200 (Some (u '' ok '')) []),
          env_randint = 2, env_choice = [], env_now = 0\<rparr> (Some \<lparr>msg_text = Some (u ''/help  @Bot''), msg_chat_type = Some (u ''group''),
               msg_chat_id = 7, msg_from_user = None, msg_reply_to = None\<rparr>) \<lparr>CHAT_HISTORY = [7 \<mapsto> [u ''ann: hello'']], LAST_ROAST_AT = Map.empty\<rparr>) = Some (u ''ok'')
   \<and> startswith (normalize_text (u ''/help'')) (u ''/'')
   \<and> \<not> should_answer_with_llm ascii_only (Some \<lparr>msg_text = Some (u ''/help''), msg_chat_type = Some (u ''group''),
               msg_chat_id = 7, msg_from_user = None, msg_reply_to = None\<rparr>) (u ''bot'')
   \<and> CHAT_HISTORY (fst (on_text ascii_only \<lparr>env_username = Some (u ''bot''), env_post = (\<lambda>p i. Response 200 (Some (u '' ok '')) []),
          env_randint = 2, env_choice = [], env_now = 0\<rparr> (Some \<lparr>msg_text = Some (u ''/help''), msg_chat_type = Some (u ''group''),
               msg_chat_id = 7, msg_from_user = None, msg_reply_to = None\<rparr>) \<lparr>CHAT_HISTORY = [7 \<mapsto> [u ''ann: hello'']], LAST_ROAST_AT = Map.empty\<rparr>)) = [7 \<mapsto> [u ''ann: hello'']]"
  using command_sample plain_command_sample
    command_not_recorded [of "Some \<lparr>msg_text = Some (u ''/help  @Bot''), msg_chat_type = Some (u ''group''),
               msg_chat_id = 7, msg_from_user = None, msg_reply_to = None\<rparr>" "\<lparr>msg_text = Some (u ''/help  @Bot''), msg_chat_type = Some (u ''group''),
               msg_chat_id = 7, msg_from_user = None, msg_reply_to = None\<rparr>" "u ''/help  @Bot''" ascii_only "\<lparr>env_username = Some (u ''bot''), env_post = (\<lambda>p i. Response 200 (Some (u '' ok '')) []),
          env_randint = 2, env_choice = [], env_now = 0\<rparr>" "\<lparr>CHAT_HISTORY = [7 \<mapsto> [u ''ann: hello'']], LAST_ROAST_AT = Map.empty\<rparr>" 7]
    command_not_recorded [of "Some \<lparr>msg_text = Some (u ''/help''), msg_chat_type = Some (u ''group''),
               msg_chat_id = 7, msg_from_user = None, msg_reply_to = None\<rparr>" "\<lparr>msg_text = Some (u ''/help''), msg_chat_type = Some (u ''group''),
               msg_chat_id = 7, msg_from_user = None, msg_reply_to = None\<rparr>" "u ''/help''" ascii_only "\<lparr>env_username = Some (u ''bot''), env_post = (\<lambda>p i. Response 200 (Some (u '' ok '')) []),
          env_randint = 2, env_choice = [], env_now = 0\<rparr>" "\<lparr>CHAT_HISTORY = [7 \<mapsto> [u ''ann: hello'']], LAST_ROAST_AT = Map.empty\<rparr>" 7]
  by (simp add: is_group_def history_of_def hf_generate_def post_process_def Let_def)
     (simp add: u_def strip_def py_isspace_def)

section \<open>Reply post-processing: results\<close>

lemma dropWhile_keep: "xs \<noteq> [] \<Longrightarrow> \<not> P (hd xs) \<Longrightarrow> dropWhile P xs = xs"
  by (cases xs) simp_all

lemma strip_clean:
  assumes "s \<noteq> []" and "\<not> py_isspace (hd s)" and "\<not> py_isspace (last s)"
  shows "strip s = s"
proof -
  have "dropWhile py_isspace s = s" using assms(1,2) by (rule dropWhile_keep)
  moreover have "dropWhile py_isspace (rev s) = rev s"
    using assms(1,3) by (intro dropWhile_keep) (simp_all add: hd_rev)
  ultimately show ?thesis by (simp add: strip_def)
qed

lemma rsplit1_head_at: "32 \<notin> set b \<Longrightarrow> rsplit1_head (a @ 32 # b) = a"
proof -
  assume b: "32 \<notin> set b"
  then have "dropWhile (\<lambda>c. c \<noteq> 32) (rev b @ 32 # rev a) = 32 # rev a"
    by (subst dropWhile_append2) auto
  then show ?thesis by (simp add: rsplit1_head_def)
qed

lemma rsplit1_head_cut:
  assumes "32 \<in> set s"
  shows "\<exists>suf. s = rsplit1_head s @ 32 # suf \<and> 32 \<notin> set suf"
proof -
  let ?P = "\<lambda>c::nat. c \<noteq> 32"
  let ?dw = "dropWhile ?P (rev s)" and ?tw = "takeWhile ?P (rev s)"
  from assms have ne: "?dw \<noteq> []" by (auto simp: dropWhile_eq_Nil_conv)
  then have "\<not> ?P (hd ?dw)" by (rule hd_dropWhile)
  with ne have dw: "?dw = 32 # tl ?dw" by (cases ?dw) simp_all
  have "rev s = ?tw @ ?dw" by simp
  then have "rev s = ?tw @ 32 # tl ?dw" using dw by simp
  then have "rev (rev s) = rev (?tw @ 32 # tl ?dw)" by (rule arg_cong)
  then have "s = rev (tl ?dw) @ 32 # rev ?tw" by simp
  moreover have "rsplit1_head s = rev (tl ?dw)" using assms by (simp add: rsplit1_head_def)
  moreover have "32 \<notin> set (rev ?tw)" by (auto dest: set_takeWhileD)
  ultimately show ?thesis by metis
qed

lemma rsplit1_head_length: "length (rsplit1_head s) \<le> length s"
proof (cases "32 \<in> set s")
  case True
  then obtain suf where "s = rsplit1_head s @ 32 # suf" using rsplit1_head_cut by blast
  then have "length s = length (rsplit1_head s) + Suc (length suf)"
    by (metis length_append length_Cons)
  then show ?thesis by simp
next
  case False
  then show ?thesis by (simp add: rsplit1_head_def)
qed

lemma clarifying_length: "length (u ''What love? Ask me again, please.'') \<le> 3500"
  by (simp add: u_def)

lemma spec_truncate_at:
  "take 3500 reply = a @ w # b \<Longrightarrow> py_isspace w \<Longrightarrow> list_all (\<lambda>c. \<not> py_isspace c) b \<Longrightarrow>
   spec_truncate reply = a @ [8230]"
proof -
  assume l: "take 3500 reply = a @ w # b" and w: "py_isspace w"
    and b: "list_all (\<lambda>c. \<not> py_isspace c) b"
  from b have "dropWhile (\<lambda>c. \<not> py_isspace c) (rev b @ w # rev a) = dropWhile (\<lambda>c. \<not> py_isspace c) (w # rev a)"
    by (subst dropWhile_append2) (auto simp: list_all_iff)
  with w have "dropWhile (\<lambda>c. \<not> py_isspace c) (rev b @ w # rev a) = w # rev a" by simp
  moreover from w have "list_ex py_isspace (a @ w # b)" by (auto simp: list_ex_iff)
  ultimately show ?thesis using l by (simp add: spec_truncate_def Let_def)
qed


lemma post_process_long:
  "3500 < length (strip reply0) \<Longrightarrow>
   post_process reply0 = rsplit1_head (take 3500 (strip reply0)) @ [8230]"
  by (auto simp: post_process_def Let_def)

lemma sample_reply:
  "strip ([120, 32, 121, 10] @ replicate 3497 122) = [120, 32, 121, 10] @ replicate 3497 122
   \<and> take 3500 ([120, 32, 121, 10] @ replicate 3497 122) = [120] @ 32 # ([121, 10] @ replicate 3496 122)
   \<and> take 3500 ([120, 32, 121, 10] @ replicate 3497 122) = [120, 32, 121] @ 10 # replicate 3496 122"
proof (intro conjI)
  show "strip ([120, 32, 121, 10] @ replicate 3497 122) = [120, 32, 121, 10] @ replicate 3497 122"
    by (rule strip_clean) (simp_all add: py_isspace_def)
  show "take 3500 ([120, 32, 121, 10] @ replicate 3497 122) = [120] @ 32 # ([121, 10] @ replicate 3496 122)"
    by simp
  show "take 3500 ([120, 32, 121, 10] @ replicate 3497 122) = [120, 32, 121] @ 10 # replicate 3496 122"
    by simp
qed

text \<open>
  C6, as stated, fails where the last white space before the limit is not a space. The
  reply \<open>x y\<close>, a line feed, and 3497 times \<open>z\<close> is 3501 characters long; its last white
  space before the limit is the line feed, and the reply cut there is \<open>x y\<close> with the
  ellipsis. The handler cuts at the last space and sends \<open>x\<close> with the ellipsis.
\<close>

theorem post_process_newline_counterexample:
  "3500 < length (strip ([120, 32, 121, 10] @ replicate 3497 122))
   \<and> post_process ([120, 32, 121, 10] @ replicate 3497 122) = [120, 8230]
   \<and> spec_truncate (strip ([120, 32, 121, 10] @ replicate 3497 122)) = [120, 32, 121, 8230]
   \<and> post_process ([120, 32, 121, 10] @ replicate 3497 122)
       \<noteq> spec_truncate (strip ([120, 32, 121, 10] @ replicate 3497 122))"
proof -
  let ?r = "[120, 32, 121, 10] @ replicate 3497 (122::nat)"
  have s: "strip ?r = ?r" using sample_reply by blast
  have l: "3500 < length (strip ?r)" unfolding s by simp
  have "32 \<notin> set ([121, 10] @ replicate 3496 (122::nat))" by simp
  then have "rsplit1_head ([120] @ 32 # ([121, 10] @ replicate 3496 122)) = [120]"
    by (rule rsplit1_head_at)
  moreover have "take 3500 ?r = [120] @ 32 # ([121, 10] @ replicate 3496 122)"
    using sample_reply by blast
  ultimately have h: "rsplit1_head (take 3500 ?r) = [120]" by (simp only:)
  have "post_process ?r = rsplit1_head (take 3500 (strip ?r)) @ [8230]"
    using l by (rule post_process_long)
  then have "post_process ?r = rsplit1_head (take 3500 ?r) @ [8230]" unfolding s .
  then have p: "post_process ?r = [120, 8230]" unfolding h by simp
  have "spec_truncate ?r = [120, 32, 121] @ [8230]"
  proof (rule spec_truncate_at)
    show "take 3500 ?r = [120, 32, 121] @ 10 # replicate 3496 122" using sample_reply by blast
    show "py_isspace 10" by (simp add: py_isspace_def)
    show "list_all (\<lambda>c. \<not> py_isspace c) (replicate 3496 122)"
      by (simp add: list_all_iff py_isspace_def)
  qed
  then have "spec_truncate (strip ?r) = [120, 32, 121] @ [8230]" unfolding s .
  then have t: "spec_truncate (strip ?r) = [120, 32, 121, 8230]" by simp
  from l p t show ?thesis by (simp only:) simp
qed

text \<open>
  C6, amended. An empty or white-space-only reply is replaced by the fixed prompt. A reply
  that is, once stripped, longer than 3500 characters is cut to its first 3500
  characters, then at their last space (U+0020) when they hold one, and the ellipsis is
  appended. What is sent is never longer than 3501 characters.
\<close>

theorem post_process_truncates:
  "(strip reply0 = [] \<longrightarrow> post_process reply0 = u ''What love? Ask me again, please.'')
   \<and> (3500 < length (strip reply0) \<and> 32 \<in> set (take 3500 (strip reply0)) \<longrightarrow>
        (\<exists>kept dropped. take 3500 (strip reply0) = kept @ 32 # dropped \<and> 32 \<notin> set dropped
           \<and> post_process reply0 = kept @ [8230]))
   \<and> (3500 < length (strip reply0) \<and> 32 \<notin> set (take 3500 (strip reply0)) \<longrightarrow>
        post_process reply0 = take 3500 (strip reply0) @ [8230])
   \<and> length (post_process reply0) \<le> 3501"
proof (intro conjI impI)
  assume "strip reply0 = []"
  then show "post_process reply0 = u ''What love? Ask me again, please.''"
    by (simp add: post_process_def Let_def u_def)
next
  assume h: "3500 < length (strip reply0) \<and> 32 \<in> set (take 3500 (strip reply0))"
  then obtain suf where "take 3500 (strip reply0) = rsplit1_head (take 3500 (strip reply0)) @ 32 # suf"
      and "32 \<notin> set suf"
    using rsplit1_head_cut by blast
  moreover from h have "post_process reply0 = rsplit1_head (take 3500 (strip reply0)) @ [8230]"
    by (simp add: post_process_long)
  ultimately show "\<exists>kept dropped. take 3500 (strip reply0) = kept @ 32 # dropped \<and> 32 \<notin> set dropped
           \<and> post_process reply0 = kept @ [8230]"
    by blast
next
  assume "3500 < length (strip reply0) \<and> 32 \<notin> set (take 3500 (strip reply0))"
  then show "post_process reply0 = take 3500 (strip reply0) @ [8230]"
    by (simp add: post_process_long rsplit1_head_def)
next
  show "length (post_process reply0) \<le> 3501"
  proof (cases "3500 < length (strip reply0)")
    case True
    have "length (rsplit1_head (take 3500 (strip reply0))) \<le> length (take 3500 (strip reply0))"
      by (rule rsplit1_head_length)
    with True show ?thesis by (simp add: post_process_long)
  next
    case False
    with clarifying_length show ?thesis by (simp add: post_process_def Let_def)
  qed
qed

lemma sample_word:
  "strip (replicate 3501 122) = replicate 3501 122
   \<and> take 3500 (replicate 3501 122) = replicate 3500 (122::nat)"
proof
  show "strip (replicate 3501 122) = replicate 3501 122"
    by (rule strip_clean) (simp_all add: py_isspace_def hd_replicate)
  show "take 3500 (replicate 3501 122) = replicate 3500 (122::nat)" by simp
qed

theorem post_process_truncates_witness:
  "strip (u ''  '') = []
   \<and> post_process (u ''  '') = u ''What love? Ask me again, please.''
   \<and> 3500 < length (strip ([120, 32, 121, 10] @ replicate 3497 122))
   \<and> 32 \<in> set (take 3500 (strip ([120, 32, 121, 10] @ replicate 3497 122)))
   \<and> length (post_process ([120, 32, 121, 10] @ replicate 3497 122)) \<le> 3501
   \<and> 3500 < length (strip (replicate 3501 122))
   \<and> 32 \<notin> set (take 3500 (strip (replicate 3501 122)))
   \<and> post_process (replicate 3501 122) = replicate 3500 122 @ [8230]"
proof -
  have a: "strip (u ''  '') = []" by (simp add: strip_def u_def py_isspace_def)
  have b: "3500 < length (strip ([120, 32, 121, 10] @ replicate 3497 122))
     \<and> 32 \<in> set (take 3500 (strip ([120, 32, 121, 10] @ replicate 3497 122)))"
    using sample_reply by simp
  have s: "strip (replicate 3501 122) = replicate 3501 122" using sample_word by blast
  have c: "3500 < length (strip (replicate 3501 122))
     \<and> 32 \<notin> set (take 3500 (strip (replicate 3501 122)))"
    unfolding s by simp
  have d: "take 3500 (strip (replicate 3501 122)) = replicate 3500 122"
    unfolding s using sample_word by blast
  from c post_process_truncates [of "replicate 3501 122"]
  have "post_process (replicate 3501 122) = take 3500 (strip (replicate 3501 122)) @ [8230]"
    by blast
  then have e: "post_process (replicate 3501 122) = replicate 3500 122 @ [8230]"
    unfolding d .
  from a b c e post_process_truncates [of "u ''  ''"]
    post_process_truncates [of "[120, 32, 121, 10] @ replicate 3497 122"]
  show ?thesis by blast
qed

section \<open>Letter case: results\<close>

lemma lower_from_ascii:
  "(\<And>c. c \<in> set s \<Longrightarrow> c < 128) \<Longrightarrow> lower_from U s0 i s = map ascii_lower s"
  by (induction s arbitrary: i) simp_all

lemma py_lower_ascii: "(\<And>c. c \<in> set s \<Longrightarrow> c < 128) \<Longrightarrow> py_lower U s = map ascii_lower s"
  by (simp add: py_lower_def lower_from_ascii)

text \<open>
  The long s and the Kelvin sign: the substitution deletes \<open>@\<close>, long s, \<open>bot\<close> for the
  handle \<open>sbot\<close>, and the classifier sees a mention of \<open>kbot\<close> in \<open>@\<close>, Kelvin sign, \<open>bot\<close>
  when the table lowers the Kelvin sign to \<open>k\<close>, as the interpreter's does.
\<close>

lemma long_s_mention:
  "re_sub_mention U (u ''sbot'') (u ''hi @'' @ [383] @ u ''bot x'') = u ''hi  x''"
  by (simp add: sre_ci_def ascii_ci_def ascii_lower_def u_def)

lemma kelvin_mention:
  "lower_table U ([64, 8490] @ u ''bot'') 1 = [107] \<Longrightarrow>
   should_answer_with_llm U
     (Some \<lparr>msg_text = Some ([64, 8490] @ u ''bot''), msg_chat_type = Some (u ''group''),
            msg_chat_id = 7, msg_from_user = None, msg_reply_to = None\<rparr>) (u ''kbot'')"
  by (simp add: should_answer_with_llm_def py_lower_def ascii_lower_def u_def)

section \<open>Prompt builder: results\<close>

lemma occurs_at_Cons: "occurs_at U p (c # cs) (Suc i) = occurs_at U p cs i"
  by (simp add: occurs_at_def)

lemma occurs_at_head: "occurs_at U p s 0 = matches_at U p s"
  by (simp add: occurs_at_def)



lemma matches_at_ascii:
  "(\<And>p. p \<in> set ps \<Longrightarrow> p < 128) \<Longrightarrow> matches_at U ps s = matches_at U' ps s"
  by (induction U ps s rule: matches_at.induct) (simp_all add: sre_ci_def)

lemma re_sub_mention_ascii:
  "(\<And>p. p \<in> set h \<Longrightarrow> p < 128) \<Longrightarrow> re_sub_mention U h s = re_sub_mention U' h s"
proof (induction U h s rule: re_sub_mention.induct)
  case (1 U h)
  show ?case by simp
next
  case (2 U h c cs)
  have m: "matches_at U (64 # h) (c # cs) = matches_at U' (64 # h) (c # cs)"
    by (rule matches_at_ascii) (use "2.prems" in auto)
  show ?case
  proof (cases "matches_at U (64 # h) (c # cs)")
    case True
    with m "2.IH"(1) "2.prems" show ?thesis by (simp del: matches_at.simps)
  next
    case False
    with m "2.IH"(2) "2.prems" show ?thesis by (simp del: matches_at.simps)
  qed
qed










end
